theory Spec2Isabelle
  imports Main "HOL-Library.AList"
begin

section \<open>Python text operations used by the checker\<close>

text \<open>
  Text is modelled as \<^typ>\<open>string\<close>, one \<^typ>\<open>char\<close> per character, and the library
  as CPython 3.11 has it.  The model is exact for ASCII text; the few places
  where the library looks at characters beyond ASCII, or validates an address
  literal, are parameters of the model (record \<open>pylib\<close> below).

  The routines of this section are the ones \<^verbatim>\<open>main.py\<close> calls to search text:
  \<^verbatim>\<open>re.finditer\<close> with an escaped, hence literal, pattern, \<^verbatim>\<open>str.find\<close>, \<^verbatim>\<open>str.count\<close>
  and \<^verbatim>\<open>str.replace(old, new, 1)\<close>.  All four go through the text from left to
  right and look for non-overlapping occurrences; the empty pattern occurs once
  at every position, the end of the text included.
\<close>

function occurrences_from :: "string \<Rightarrow> nat \<Rightarrow> string \<Rightarrow> nat list" where
  "occurrences_from old i s =
     (if old = [] then [i ..< i + length s + 1]
      else if length s < length old then []
      else if take (length old) s = old
        then i # occurrences_from old (i + length old) (drop (length old) s)
      else occurrences_from old (i + 1) (tl s))"
  by pat_completeness auto
termination
proof (relation "measure (\<lambda>(old, i, s). length s)")
  show "wf (measure (\<lambda>(old, i, s). length s))" by simp
next
  fix old :: string and i :: nat and s :: string
  assume "old \<noteq> []" and "\<not> length s < length old"
  then have "0 < length old \<and> 0 < length s" by (cases old) auto
  then show "((old, i + length old, drop (length old) s), (old, i, s))
               \<in> measure (\<lambda>(old, i, s). length s)" by simp
next
  fix old :: string and i :: nat and s :: string
  assume "old \<noteq> []" and "\<not> length s < length old"
  then have "0 < length s" by (cases old) auto
  then show "((old, i + 1, tl s), (old, i, s)) \<in> measure (\<lambda>(old, i, s). length s)"
    by simp
qed

declare occurrences_from.simps [simp del]

definition finditer_starts :: "string \<Rightarrow> string \<Rightarrow> nat list" where
  \<comment> \<open>\<^verbatim>\<open>[m.start() for m in re.finditer(re.escape(old), string)]\<close>\<close>
  "finditer_starts old s = occurrences_from old 0 s"

definition str_find :: "string \<Rightarrow> string \<Rightarrow> nat option" where
  \<comment> \<open>\<^verbatim>\<open>s.find(sub)\<close>, with \<open>None\<close> for Python's \<open>-1\<close>\<close>
  "str_find s sub = (case occurrences_from sub 0 s of [] \<Rightarrow> None | p # _ \<Rightarrow> Some p)"

definition str_count :: "string \<Rightarrow> string \<Rightarrow> nat" where
  \<comment> \<open>\<^verbatim>\<open>s.count(sub)\<close>\<close>
  "str_count s sub = length (occurrences_from sub 0 s)"

definition str_replace1 :: "string \<Rightarrow> string \<Rightarrow> string \<Rightarrow> string" where
  \<comment> \<open>\<^verbatim>\<open>s.replace(old, new, 1)\<close>\<close>
  "str_replace1 s old new =
     (case str_find s old of
        None \<Rightarrow> s
      | Some p \<Rightarrow> take p s @ new @ drop (p + length old) s)"

section \<open>\<^verbatim>\<open>replace_nth\<close>\<close>

definition replace_nth :: "string \<Rightarrow> string \<Rightarrow> string \<Rightarrow> int \<Rightarrow> string" where
  "replace_nth string old new n =
     (let occurrences = finditer_starts old string in
      if n \<le> 0 \<or> n > int (length occurrences) then string
      else
        let nth_occurrence_index = occurrences ! nat (n - 1);
            prefix = take nth_occurrence_index string;
            suffix = drop nth_occurrence_index string;
            updated_suffix = str_replace1 suffix old new
        in prefix @ updated_suffix)"

section \<open>Python values, errors and dictionaries\<close>

datatype error = ValueError | IndexError | KeyError | TypeError | UnicodeDecodeError

datatype pyval = PStr string | PInt int

text \<open>
  A \<^verbatim>\<open>dict\<close> keeps its keys in insertion order; assigning to an existing key
  replaces the value in place, which is what \<^const>\<open>AList.update\<close> does.
\<close>

type_synonym pydict = "(string \<times> pyval) list"

definition dict_get :: "pydict \<Rightarrow> string \<Rightarrow> pyval option" where
  \<comment> \<open>\<^verbatim>\<open>d.get(k)\<close>\<close>
  "dict_get d k = map_of d k"

definition dict_update :: "pydict \<Rightarrow> (string \<times> string) list \<Rightarrow> pydict" where
  \<comment> \<open>\<^verbatim>\<open>d.update(qs)\<close> for a dictionary \<open>qs\<close> of text values\<close>
  "dict_update d qs = foldl (\<lambda>acc kv. AList.update (fst kv) (PStr (snd kv)) acc) d qs"

definition truthy :: "pyval option \<Rightarrow> bool" where
  \<comment> \<open>the truth value of \<^verbatim>\<open>d.get(k)\<close> in an \<^verbatim>\<open>if\<close>\<close>
  "truthy v = (case v of None \<Rightarrow> False | Some (PStr s) \<Rightarrow> s \<noteq> [] | Some (PInt n) \<Rightarrow> n \<noteq> 0)"

definition nth_opt :: "'a list \<Rightarrow> nat \<Rightarrow> 'a option" where
  \<comment> \<open>\<^verbatim>\<open>xs[i]\<close> for \<open>i \<ge> 0\<close>; \<open>None\<close> stands for \<^verbatim>\<open>IndexError\<close>\<close>
  "nth_opt xs i = (if i < length xs then Some (xs ! i) else None)"

section \<open>Characters and splitting\<close>

definition ord :: "char \<Rightarrow> nat" where
  "ord c = of_char c"

definition isascii :: "char \<Rightarrow> bool" where
  "isascii c = (ord c < 128)"

definition isalpha :: "char \<Rightarrow> bool" where
  \<comment> \<open>\<^verbatim>\<open>c.isascii() and c.isalpha()\<close>\<close>
  "isalpha c = ((65 \<le> ord c \<and> ord c \<le> 90) \<or> (97 \<le> ord c \<and> ord c \<le> 122))"

definition isdigit :: "char \<Rightarrow> bool" where
  "isdigit c = (48 \<le> ord c \<and> ord c \<le> 57)"

definition ishex :: "char \<Rightarrow> bool" where
  "ishex c = (isdigit c \<or> (65 \<le> ord c \<and> ord c \<le> 70) \<or> (97 \<le> ord c \<and> ord c \<le> 102))"

definition hexval :: "char \<Rightarrow> nat" where
  "hexval c = (if isdigit c then ord c - 48 else if ord c \<le> 70 then ord c - 55 else ord c - 87)"


definition int_isspace :: "char \<Rightarrow> bool" where
  \<comment> \<open>the ASCII characters \<^verbatim>\<open>int()\<close> skips around a literal\<close>
  "int_isspace c = ((9 \<le> ord c \<and> ord c \<le> 13) \<or> ord c = 32)"

definition lower_char :: "char \<Rightarrow> char" where
  "lower_char c = (if 65 \<le> ord c \<and> ord c \<le> 90 then char_of (ord c + 32) else c)"

definition str_lower :: "string \<Rightarrow> string" where
  "str_lower s = map lower_char s"

definition strip_with :: "(char \<Rightarrow> bool) \<Rightarrow> string \<Rightarrow> string" where
  "strip_with sp s = rev (dropWhile sp (rev (dropWhile sp s)))"


fun str_split :: "string \<Rightarrow> char \<Rightarrow> string list" where
  \<comment> \<open>\<^verbatim>\<open>s.split(sep)\<close> for a separator of one character\<close>
  "str_split [] sep = [[]]"
| "str_split (c # cs) sep =
     (if c = sep then [] # str_split cs sep
      else (case str_split cs sep of [] \<Rightarrow> [[c]] | w # ws \<Rightarrow> (c # w) # ws))"

definition str_partition :: "string \<Rightarrow> char \<Rightarrow> string \<times> bool \<times> string" where
  \<comment> \<open>\<^verbatim>\<open>s.partition(sep)\<close>: the text before the first separator, whether there
      is one, the text after it\<close>
  "str_partition s sep =
     (takeWhile (\<lambda>c. c \<noteq> sep) s, sep \<in> set s, drop 1 (dropWhile (\<lambda>c. c \<noteq> sep) s))"

section \<open>Library parameters\<close>

text \<open>
  Four library routines are taken as parameters: the validation of a host in
  square brackets (\<^verbatim>\<open>urllib.parse._check_bracketed_host\<close>), the NFKC check
  that \<^verbatim>\<open>_checknetloc\<close> runs on an authority with non-ASCII characters, strict
  UTF-8 decoding (\<^verbatim>\<open>bytes.decode('utf-8')\<close>, \<open>None\<close> for \<^verbatim>\<open>UnicodeDecodeError\<close>)
  and UTF-8 decoding with replacement (\<^verbatim>\<open>decode('utf-8', 'replace')\<close>).
\<close>

record pylib =
  check_bracketed_host :: "string \<Rightarrow> bool"
  checknetloc_nfkc :: "string \<Rightarrow> bool"
  utf8_decode :: "string \<Rightarrow> string option"
  utf8_decode_replace :: "string \<Rightarrow> string"

definition ascii_lib :: pylib where
  \<comment> \<open>The parameters as they act on ASCII text; hosts in square brackets, which
      none of the examples below contains, are refused.\<close>
  "ascii_lib =
     \<lparr> check_bracketed_host = (\<lambda>h. False),
       checknetloc_nfkc = (\<lambda>n. True),
       utf8_decode = (\<lambda>b. if list_all isascii b then Some b else None),
       utf8_decode_replace = (\<lambda>b. b) \<rparr>"

section \<open>\<^verbatim>\<open>urllib.parse\<close>: \<^verbatim>\<open>urlparse\<close> and \<^verbatim>\<open>parse_qs\<close> (CPython 3.11)\<close>

record ParseResult =
  scheme :: string
  netloc :: string
  path :: string
  params :: string
  query :: string
  fragment :: string

definition scheme_chars :: string where
  "scheme_chars = ''abcdefghijklmnopqrstuvwxyzABCDEFGHIJKLMNOPQRSTUVWXYZ0123456789+-.''"

definition uses_params :: "string list" where
  "uses_params = ['''', ''ftp'', ''hdl'', ''prospero'', ''http'', ''imap'', ''https'',
                  ''shttp'', ''rtsp'', ''rtspu'', ''sip'', ''sips'', ''mms'', ''sftp'', ''tel'']"

definition c0_control_or_space :: "char \<Rightarrow> bool" where
  "c0_control_or_space c = (ord c \<le> 32)"

definition unsafe_url_byte :: "char \<Rightarrow> bool" where
  \<comment> \<open>tab, carriage return, line feed\<close>
  "unsafe_url_byte c = (ord c = 9 \<or> ord c = 13 \<or> ord c = 10)"

definition netloc_delim :: "char \<Rightarrow> bool" where
  "netloc_delim c = (c = CHR ''/'' \<or> c = CHR ''?'' \<or> c = CHR ''#'')"

definition splitnetloc :: "string \<Rightarrow> string \<times> string" where
  \<comment> \<open>\<^verbatim>\<open>_splitnetloc(url, 2)\<close>: the authority ends at the first of \<open>/ ? #\<close>\<close>
  "splitnetloc u =
     (takeWhile (\<lambda>c. \<not> netloc_delim c) (drop 2 u),
      dropWhile (\<lambda>c. \<not> netloc_delim c) (drop 2 u))"

definition split_scheme :: "string \<Rightarrow> string \<times> string" where
  \<comment> \<open>the scheme test of \<^verbatim>\<open>urlsplit\<close>: \<open>i = url.find(':')\<close>, \<open>i > 0\<close>, a letter
      first and scheme characters only\<close>
  "split_scheme u =
     (let h = takeWhile (\<lambda>c. c \<noteq> CHR '':'') u in
      if CHR '':'' \<in> set u \<and> h \<noteq> [] \<and> isalpha (hd h) \<and> list_all (\<lambda>c. c \<in> set scheme_chars) h
      then (str_lower h, drop (length h + 1) u)
      else ([], u))"

definition splitparams :: "string \<Rightarrow> string \<times> string" where
  \<comment> \<open>\<^verbatim>\<open>_splitparams\<close>, called when the path contains \<open>;\<close>\<close>
  "splitparams u =
     (if CHR ''/'' \<in> set u then
        (let k = length u - 1 - length (takeWhile (\<lambda>c. c \<noteq> CHR ''/'') (rev u));
             t = drop k u
         in if CHR '';'' \<in> set t
            then (take (k + length (takeWhile (\<lambda>c. c \<noteq> CHR '';'') t)) u,
                  drop (k + length (takeWhile (\<lambda>c. c \<noteq> CHR '';'') t) + 1) u)
            else (u, []))
      else (takeWhile (\<lambda>c. c \<noteq> CHR '';'') u, drop 1 (dropWhile (\<lambda>c. c \<noteq> CHR '';'') u)))"

definition url_authority :: "string \<Rightarrow> string \<times> string \<times> string" where
  \<comment> \<open>the first half of \<^verbatim>\<open>urlsplit\<close>: the scheme, the authority (\<^verbatim>\<open>netloc\<close>) and the
      text after it\<close>
  "url_authority url0 =
     (let url1 = dropWhile c0_control_or_space url0;
          url2 = filter (\<lambda>c. \<not> unsafe_url_byte c) url1;
          (sch, url3) = split_scheme url2;
          (nl, url4) = (if take 2 url3 = ''//'' then splitnetloc url3 else ([], url3))
      in (sch, nl, url4))"

definition urlparse :: "pylib \<Rightarrow> string \<Rightarrow> error + ParseResult" where
  "urlparse L url0 =
     (let (sch, nl, url4) = url_authority url0;
          lb = CHR ''['' \<in> set nl;
          rb = CHR '']'' \<in> set nl
      in if (lb \<and> \<not> rb) \<or> (rb \<and> \<not> lb) then Inl ValueError
         else if lb \<and> rb \<and>
                 \<not> check_bracketed_host L
                     (fst (str_partition (snd (snd (str_partition nl (CHR ''['')))) (CHR '']'')))
           then Inl ValueError
         else
           let (url5, frag) =
                 (if CHR ''#'' \<in> set url4
                  then (fst (str_partition url4 (CHR ''#'')), snd (snd (str_partition url4 (CHR ''#''))))
                  else (url4, []));
               (url6, qry) =
                 (if CHR ''?'' \<in> set url5
                  then (fst (str_partition url5 (CHR ''?'')), snd (snd (str_partition url5 (CHR ''?''))))
                  else (url5, []))
           in if nl \<noteq> [] \<and> \<not> list_all isascii nl \<and> \<not> checknetloc_nfkc L nl then Inl ValueError
              else
                let (url7, prm) =
                      (if sch \<in> set uses_params \<and> CHR '';'' \<in> set url6
                       then splitparams url6 else (url6, []))
                in Inr \<lparr> scheme = sch, netloc = nl, path = url7, params = prm,
                         query = qry, fragment = frag \<rparr>)"

definition unquote_item :: "string \<Rightarrow> string" where
  \<comment> \<open>one piece after a \<open>%\<close>: two hexadecimal digits become one byte\<close>
  "unquote_item item =
     (case item of
        a # b # r \<Rightarrow> if ishex a \<and> ishex b then char_of (16 * hexval a + hexval b) # r
                     else CHR ''%'' # item
      | _ \<Rightarrow> CHR ''%'' # item)"

definition unquote_to_bytes :: "string \<Rightarrow> string" where
  "unquote_to_bytes s =
     (case str_split s (CHR ''%'') of
        [] \<Rightarrow> s
      | b # bs \<Rightarrow> b @ concat (map unquote_item bs))"

definition unquote :: "pylib \<Rightarrow> string \<Rightarrow> string" where
  "unquote L s =
     (if CHR ''%'' \<notin> set s then s else utf8_decode_replace L (unquote_to_bytes s))"

definition unquote_plus :: "pylib \<Rightarrow> string \<Rightarrow> string" where
  "unquote_plus L s = unquote L (map (\<lambda>c. if c = CHR ''+'' then CHR '' '' else c) s)"

definition parse_qsl_field :: "pylib \<Rightarrow> string \<Rightarrow> (string \<times> string) list" where
  \<comment> \<open>one \<open>&\<close>-separated field; empty fields and blank values are dropped
      (\<^verbatim>\<open>keep_blank_values=False\<close>, \<^verbatim>\<open>strict_parsing=False\<close>)\<close>
  "parse_qsl_field L name_value =
     (if name_value = [] then []
      else case str_partition name_value (CHR ''='') of
        (name, has_eq, val) \<Rightarrow>
          if val = [] then [] else [(unquote_plus L name, unquote_plus L val)])"

definition parse_qsl :: "pylib \<Rightarrow> string \<Rightarrow> (string \<times> string) list" where
  "parse_qsl L qs =
     (if qs = [] then [] else concat (map (parse_qsl_field L) (str_split qs (CHR ''&''))))"

fun parse_qs_add :: "(string \<times> string list) list \<Rightarrow> string \<times> string \<Rightarrow> (string \<times> string list) list"
  where
  \<comment> \<open>\<^verbatim>\<open>parsed_result[name].append(value)\<close> or \<^verbatim>\<open>parsed_result[name] = [value]\<close>\<close>
  "parse_qs_add [] (name, val) = [(name, [val])]"
| "parse_qs_add ((k, vs) # d) (name, val) =
     (if k = name then (k, vs @ [val]) # d else (k, vs) # parse_qs_add d (name, val))"

definition parse_qs :: "pylib \<Rightarrow> string \<Rightarrow> (string \<times> string list) list" where
  "parse_qs L qs = foldl parse_qs_add [] (parse_qsl L qs)"

section \<open>\<^verbatim>\<open>int()\<close> on text\<close>

fun digit_groups_ok :: "string \<Rightarrow> bool" where
  \<comment> \<open>decimal digits, single underscores allowed between two digits\<close>
  "digit_groups_ok [] = False"
| "digit_groups_ok [c] = isdigit c"
| "digit_groups_ok (c # d # r) =
     (isdigit c \<and> (if d = CHR ''_'' then digit_groups_ok r else digit_groups_ok (d # r)))"

definition digits_value :: "string \<Rightarrow> int" where
  "digits_value ds = foldl (\<lambda>a c. 10 * a + (int (ord c) - 48)) 0 ds"

definition py_int :: "string \<Rightarrow> int option" where
  \<comment> \<open>\<^verbatim>\<open>int(s)\<close>; \<open>None\<close> stands for \<^verbatim>\<open>ValueError\<close>.  More than 4300 digits are
      refused (\<^verbatim>\<open>sys.int_max_str_digits\<close>).\<close>
  "py_int s =
     (let t = strip_with int_isspace s;
          (sign, body) =
            (case t of
               [] \<Rightarrow> (1, t)
             | c # r \<Rightarrow> if c = CHR ''+'' then (1, r)
                        else if c = CHR ''-'' then (- 1, r)
                        else (1, t));
          ds = filter isdigit body
      in if digit_groups_ok body \<and> length ds \<le> 4300 then Some (sign * digits_value ds)
         else None)"

section \<open>\<^verbatim>\<open>parse_config\<close>\<close>

text \<open>
  Every exception raised inside the \<^verbatim>\<open>try\<close> block, the \<^verbatim>\<open>IndexError\<close> of a
  missing list element included, is caught and raised again as
  \<^verbatim>\<open>ValueError\<close>; the message is not modelled.
\<close>

definition first_values :: "(string \<times> string list) list \<Rightarrow> (string \<times> string) list option" where
  \<comment> \<open>\<^verbatim>\<open>{key: value[0] for key, value in d.items()}\<close>\<close>
  "first_values d =
     those (map (\<lambda>kv. case snd kv of [] \<Rightarrow> None | v # _ \<Rightarrow> Some (fst kv, v)) d)"

definition parse_config :: "pylib \<Rightarrow> string \<Rightarrow> error + pydict" where
  "parse_config L config =
     (case urlparse L config of
        Inl e \<Rightarrow> Inl ValueError
      | Inr parse \<Rightarrow>
          if scheme parse = [] \<or> netloc parse = [] then Inl ValueError
          else
           (case nth_opt (str_split (netloc parse) (CHR ''@'')) 0 of
              None \<Rightarrow> Inl ValueError
            | Some uuid \<Rightarrow>
           (case nth_opt (str_split (netloc parse) (CHR ''@'')) 1 of
              None \<Rightarrow> Inl ValueError
            | Some hostport \<Rightarrow>
           (case nth_opt (str_split hostport (CHR '':'')) 0 of
              None \<Rightarrow> Inl ValueError
            | Some address \<Rightarrow>
           (case nth_opt (str_split (netloc parse) (CHR '':'')) 1 of
              None \<Rightarrow> Inl ValueError
            | Some port_text \<Rightarrow>
           (case py_int port_text of
              None \<Rightarrow> Inl ValueError
            | Some port \<Rightarrow>
           (case first_values (parse_qs L (query parse)) of
              None \<Rightarrow> Inl ValueError
            | Some qs \<Rightarrow>
                Inr (dict_update
                       (AList.update ''port'' (PInt port)
                         (AList.update ''address'' (PStr address)
                           (AList.update ''uuid'' (PStr uuid)
                             (AList.update ''proto'' (PStr (scheme parse)) []))))
                       qs))))))))"

section \<open>\<^verbatim>\<open>SniChecker\<close>\<close>

record SniChecker =
  self_sni :: string
  self_url :: string
  self_config :: pydict
  self_urls :: "string list"

definition SniChecker_init :: "pylib \<Rightarrow> string \<Rightarrow> string \<Rightarrow> error + SniChecker" where
  \<comment> \<open>\<^verbatim>\<open>SniChecker(sni=..., config=...)\<close>\<close>
  "SniChecker_init L sni_arg config_arg =
     (case parse_config L config_arg of
        Inl e \<Rightarrow> Inl e
      | Inr c \<Rightarrow> Inr \<lparr> self_sni = sni_arg, self_url = config_arg,
                        self_config = c, self_urls = [] \<rparr>)"

fun expand_inner :: "string \<Rightarrow> string \<Rightarrow> string \<Rightarrow> nat list \<Rightarrow> string list \<Rightarrow> string list" where
  \<comment> \<open>\<^verbatim>\<open>for j in range(...): generated_urls.append(replace_nth(url, address, sni, j+1))\<close>\<close>
  "expand_inner u address sni_arg [] generated_urls = generated_urls"
| "expand_inner u address sni_arg (j # js) generated_urls =
     expand_inner u address sni_arg js
       (generated_urls @ [replace_nth u address sni_arg (int j + 1)])"

fun expand_outer :: "string \<Rightarrow> string \<Rightarrow> nat list \<Rightarrow> string list \<Rightarrow> string list" where
  \<comment> \<open>\<^verbatim>\<open>for i in range(len(generated_urls))\<close>, the range taken before the loop
      starts; \<open>i\<close> is always below the length of the growing list\<close>
  "expand_outer address sni_arg [] generated_urls = generated_urls"
| "expand_outer address sni_arg (i # is) generated_urls =
     (if i = 0 then expand_outer address sni_arg is generated_urls
      else
        let u = generated_urls ! i in
        expand_outer address sni_arg is
          (expand_inner u address sni_arg
             [0 ..< nat (int (str_count u address) - 1)] generated_urls))"

definition generate :: "SniChecker \<Rightarrow> error + string list" where
  "generate self =
     (case dict_get (self_config self) ''address'' of
        None \<Rightarrow> Inl KeyError
      | Some (PInt n) \<Rightarrow> Inl TypeError
      | Some (PStr address) \<Rightarrow>
          let u = self_url self;
              g1 = [str_replace1 u address (self_sni self)];
              g2 = (if truthy (dict_get (self_config self) ''sni'')
                    then g1 @ [replace_nth u address (self_sni self) 2] else g1);
              g3 = (if truthy (dict_get (self_config self) ''host'')
                    then g2 @ [replace_nth u address (self_sni self) (int (length g2) + 1)]
                    else g2)
          in Inr (if length g3 \<noteq> 1
                  then expand_outer address (self_sni self) [0 ..< length g3] g3
                  else g3))"

section \<open>The port pool\<close>

text \<open>
  \<^verbatim>\<open>ports = random.sample(range(1024, 65536), 100)\<close>.  The sample is random, so the
  model gives the set of lists it may return: \<open>k\<close> elements of the population
  taken at pairwise different positions, in any order.
\<close>

definition py_range :: "int \<Rightarrow> int \<Rightarrow> int list" where
  "py_range a b = [a .. b - 1]"

definition random_sample :: "'a list \<Rightarrow> nat \<Rightarrow> 'a list set" where
  "random_sample population k =
     {map (\<lambda>i. population ! i) idx | idx.
        length idx = k \<and> distinct idx \<and> set idx \<subseteq> {..< length population}}"

definition ports_initial :: "int list set" where
  "ports_initial = random_sample (py_range 1024 65536) 100"

definition ports_pop :: "int list \<Rightarrow> error + (int \<times> int list)" where
  \<comment> \<open>\<^verbatim>\<open>port = ports.pop()\<close>: the last element, or \<^verbatim>\<open>IndexError\<close> on the empty list\<close>
  "ports_pop ports = (if ports = [] then Inl IndexError else Inr (last ports, butlast ports))"

fun acquire_ports :: "nat \<Rightarrow> int list \<Rightarrow> (error + int) list \<times> int list" where
  \<comment> \<open>the first statement of \<open>n\<close> successive calls of \<^verbatim>\<open>run\<close>: what each call gets,
      and the pool afterwards; a call that fails leaves the pool as it is\<close>
  "acquire_ports 0 ports = ([], ports)"
| "acquire_ports (Suc n) ports =
     (case ports_pop ports of
        Inl e \<Rightarrow> (Inl e # fst (acquire_ports n ports), snd (acquire_ports n ports))
      | Inr pr \<Rightarrow> (Inr (fst pr) # fst (acquire_ports n (snd pr)),
                   snd (acquire_ports n (snd pr))))"

section \<open>\<^verbatim>\<open>SniChecker.run\<close> after the tunnel process is launched\<close>

text \<open>
  From \<^verbatim>\<open>result = None\<close> on, \<^verbatim>\<open>run\<close> only calls the outside world.  Each such call
  either returns or raises; what it does is given by an environment.  An
  exception is an \<^verbatim>\<open>Exception\<close> (caught by \<^verbatim>\<open>except Exception\<close>) or another
  \<^verbatim>\<open>BaseException\<close> such as \<^verbatim>\<open>KeyboardInterrupt\<close> (not caught).  The model returns
  the calls that were begun, in order, and how \<^verbatim>\<open>run\<close> ends.
\<close>

datatype call =
  Sleep | RequestsGet | LogInfo | LogWarning | GetPgid | KillPg | ProcessWait | FileClose | OsRemove

datatype raised = Exc | BaseExc

datatype run_result = ResultUrls string | ResultFalse

definition returns_all :: "call \<Rightarrow> raised option" where
  \<comment> \<open>the environment in which every call returns\<close>
  "returns_all c = None"

fun do_calls :: "(call \<Rightarrow> raised option) \<Rightarrow> call list \<Rightarrow> call list \<times> raised option" where
  \<comment> \<open>statements in sequence: the first call that raises ends the sequence\<close>
  "do_calls env [] = ([], None)"
| "do_calls env (c # cs) =
     (case env c of
        Some r \<Rightarrow> ([c], Some r)
      | None \<Rightarrow> (c # fst (do_calls env cs), snd (do_calls env cs)))"

definition run_after_launch ::
  "(call \<Rightarrow> raised option) \<Rightarrow> string \<Rightarrow> call list \<times> (raised + run_result)" where
  "run_after_launch env urls =
     (let try_body = do_calls env [Sleep, RequestsGet, LogInfo];
          handler =
            (case snd try_body of
               Some Exc \<Rightarrow> do_calls env [LogWarning]
             | other \<Rightarrow> ([], other));
          result = (if snd try_body = None then ResultUrls urls else ResultFalse);
          finally_block = do_calls env [GetPgid, KillPg, ProcessWait, FileClose, OsRemove]
      in (fst try_body @ fst handler @ fst finally_block,
          case snd finally_block of
            Some r \<Rightarrow> Inl r
          | None \<Rightarrow> (case snd handler of Some r \<Rightarrow> Inl r | None \<Rightarrow> Inr result)))"

section \<open>\<^verbatim>\<open>start\<close>\<close>




fun collect_configs :: "pylib \<Rightarrow> string \<Rightarrow> string list \<Rightarrow> string list \<Rightarrow> error + string list"
  where
  \<comment> \<open>\<^verbatim>\<open>for x in sni: ... configs.extend(generated_urls)\<close>\<close>
  "collect_configs L config_arg [] configs = Inr configs"
| "collect_configs L config_arg (x # xs) configs =
     (case SniChecker_init L x config_arg of
        Inl e \<Rightarrow> Inl e
      | Inr sni_checker \<Rightarrow>
          (case generate sni_checker of
             Inl e \<Rightarrow> Inl e
           | Inr generated_urls \<Rightarrow>
               collect_configs L config_arg xs (configs @ generated_urls)))"


text \<open>
  The threads of \<^verbatim>\<open>start\<close>.  The main thread creates the semaphore, then starts one
  thread per element of \<^verbatim>\<open>configs\<close>, then joins them in order.  A worker runs
  \<^verbatim>\<open>sni_checker.run\<close> and exits.  Neither the main thread nor a worker ever
  acquires or releases the semaphore, so its value never changes.  A schedule
  is a list of events: the main thread executes its next statement, or worker
  \<open>i\<close> returns from \<^verbatim>\<open>run\<close>.
\<close>

record sched =
  st_todo :: "string list"
  st_threads :: nat
  st_running :: "nat list"
  st_joined :: nat
  st_semaphore :: nat

datatype event = MainStep | WorkerExit nat

definition max_threads :: nat where
  "max_threads = 10"

definition start_threads :: "string list \<Rightarrow> sched" where
  "start_threads configs =
     \<lparr> st_todo = configs, st_threads = 0, st_running = [], st_joined = 0,
       st_semaphore = max_threads \<rparr>"

definition main_step :: "sched \<Rightarrow> sched option" where
  \<comment> \<open>\<^verbatim>\<open>thread.start()\<close> for the next element, or \<^verbatim>\<open>x.join()\<close> once all are started;
      \<open>None\<close> when the main thread cannot move\<close>
  "main_step s =
     (case st_todo s of
        c # cs \<Rightarrow>
          Some (s\<lparr> st_todo := cs, st_threads := st_threads s + 1,
                   st_running := st_running s @ [st_threads s] \<rparr>)
      | [] \<Rightarrow>
          if st_joined s < st_threads s \<and> st_joined s \<notin> set (st_running s)
          then Some (s\<lparr> st_joined := st_joined s + 1 \<rparr>)
          else None)"

definition worker_exit :: "nat \<Rightarrow> sched \<Rightarrow> sched option" where
  "worker_exit i s =
     (if i \<in> set (st_running s) then Some (s\<lparr> st_running := removeAll i (st_running s) \<rparr>)
      else None)"

fun exec :: "event list \<Rightarrow> sched \<Rightarrow> sched option" where
  "exec [] s = Some s"
| "exec (MainStep # es) s = (case main_step s of None \<Rightarrow> None | Some s' \<Rightarrow> exec es s')"
| "exec (WorkerExit i # es) s = (case worker_exit i s of None \<Rightarrow> None | Some s' \<Rightarrow> exec es s')"

section \<open>Facts about the occurrence scan\<close>

lemma occurrences_from_empty: "occurrences_from [] i s = [i ..< i + length s + 1]"
  by (simp add: occurrences_from.simps [of "[]" i s])


lemma take_eq_length_le: "take (length old) s = old \<Longrightarrow> length old \<le> length s"
proof -
  assume "take (length old) s = old"
  then have "length (take (length old) s) = length old" by simp
  then show ?thesis by simp
qed



lemma occurrences_from_sound:
  "p \<in> set (occurrences_from old i s) \<Longrightarrow>
     i \<le> p \<and> p - i \<le> length s \<and> take (length old) (drop (p - i) s) = old"
proof (induction old i s arbitrary: p rule: occurrences_from.induct)
  case (1 old i s)
  show ?case
  proof (cases "old = []")
    case True
    with "1.prems" show ?thesis
      by (auto simp: occurrences_from_empty)
  next
    case ne: False
    show ?thesis
    proof (cases "length s < length old")
      case True
      with ne "1.prems" show ?thesis
        by (simp add: occurrences_from.simps [of old i s])
    next
      case long: False
      show ?thesis
      proof (cases "take (length old) s = old")
        case hit: True
        from ne long hit "1.prems"
        have "p = i \<or> p \<in> set (occurrences_from old (i + length old) (drop (length old) s))"
          by (simp add: occurrences_from.simps [of old i s])
        then show ?thesis
        proof
          assume "p = i"
          with hit show ?thesis by simp
        next
          assume mem: "p \<in> set (occurrences_from old (i + length old) (drop (length old) s))"
          from "1.IH"(1) [OF ne long hit mem]
          have a: "i + length old \<le> p"
            and b: "p - (i + length old) \<le> length (drop (length old) s)"
            and c: "take (length old) (drop (p - (i + length old)) (drop (length old) s)) = old"
            by blast+
          from a have d: "p - (i + length old) + length old = p - i" by simp
          have "drop (p - (i + length old)) (drop (length old) s) = drop (p - i) s"
            by (simp only: drop_drop d)
          with c have e: "take (length old) (drop (p - i) s) = old" by simp
          from a b long have "i \<le> p" and "p - i \<le> length s" by simp_all
          with e show ?thesis by simp
        qed
      next
        case miss: False
        from ne long miss "1.prems"
        have mem: "p \<in> set (occurrences_from old (i + 1) (tl s))"
          by (simp add: occurrences_from.simps [of old i s])
        from "1.IH"(2) [OF ne long miss mem]
        have a: "i + 1 \<le> p"
          and b: "p - (i + 1) \<le> length (tl s)"
          and c: "take (length old) (drop (p - (i + 1)) (tl s)) = old"
          by simp_all
        from a have d: "Suc (p - (i + 1)) = p - i" by simp
        from c have "take (length old) (drop (Suc (p - (i + 1))) s) = old"
          by (simp add: drop_Suc)
        then have "take (length old) (drop (p - i) s) = old" by (simp only: d)
        moreover from ne long have "0 < length s" by (cases old) auto
        ultimately show ?thesis using a b d by (simp, linarith)
      qed
    qed
  qed
qed

lemma finditer_starts_sound:
  "p \<in> set (finditer_starts old s) \<Longrightarrow>
     p \<le> length s \<and> take (length old) (drop p s) = old"
  using occurrences_from_sound [of p old 0 s] by (simp add: finditer_starts_def)

lemma str_find_at_start:
  assumes "take (length old) s = old"
  shows "str_find s old = Some 0"
proof (cases "old = []")
  case True
  then show ?thesis
    by (simp add: str_find_def occurrences_from_empty upt_rec)
next
  case False
  from assms have "length old \<le> length s" by (rule take_eq_length_le)
  with False assms show ?thesis
    by (simp add: str_find_def occurrences_from.simps [of old 0 s])
qed

lemma str_replace1_at_start:
  "take (length old) s = old \<Longrightarrow> str_replace1 s old new = new @ drop (length old) s"
  by (simp add: str_replace1_def str_find_at_start)

lemma replace_nth_in_range:
  assumes "0 < n" and "n \<le> int (length (finditer_starts old s))"
  shows "replace_nth s old new n =
           take (finditer_starts old s ! nat (n - 1)) s @ new @
           drop (finditer_starts old s ! nat (n - 1) + length old) s"
proof -
  let ?p = "finditer_starts old s ! nat (n - 1)"
  from assms have "nat (n - 1) < length (finditer_starts old s)" by linarith
  then have "?p \<in> set (finditer_starts old s)" by (rule nth_mem)
  then have "take (length old) (drop ?p s) = old"
    by (simp add: finditer_starts_sound)
  then have "str_replace1 (drop ?p s) old new = new @ drop (length old) (drop ?p s)"
    by (rule str_replace1_at_start)
  with assms show ?thesis
    by (simp add: replace_nth_def Let_def add.commute)
qed


section \<open>Facts about \<^verbatim>\<open>replace_nth\<close>\<close>








section \<open>Facts about \<^verbatim>\<open>generate\<close>\<close>

lemma expand_inner_eq:
  "expand_inner v a x js g = g @ map (\<lambda>j. replace_nth v a x (int j + 1)) js"
  by (induction js arbitrary: g) simp_all

lemma shifted_range:
  "map (\<lambda>j. f (int j + 1)) [0 ..< nat (int c - 1)] = map (\<lambda>j. f (int j)) [1 ..< c]"
proof -
  have "[1 ..< c] = map Suc [0 ..< c - 1]"
    by (cases c) (simp_all add: map_Suc_upt del: upt_Suc)
  moreover have "nat (int c - 1) = c - 1" by simp
  ultimately show ?thesis by (simp add: comp_def add.commute del: upt_Suc)
qed

lemma expand_inner_count:
  "expand_inner v a x [0 ..< nat (int (str_count v a) - 1)] g =
     g @ map (\<lambda>j. replace_nth v a x (int j)) [1 ..< str_count v a]"
  by (simp only: expand_inner_eq shifted_range)

lemma str_replace1_is_first:
  "str_replace1 u a x = replace_nth u a x 1"
proof (cases "finditer_starts a u")
  case Nil
  then show ?thesis
    by (simp add: replace_nth_def str_replace1_def str_find_def finditer_starts_def)
next
  case (Cons p ps)
  then have "replace_nth u a x 1 = take p u @ x @ drop (p + length a) u"
    using replace_nth_in_range [of 1 a u x] by simp
  moreover from Cons have "str_replace1 u a x = take p u @ x @ drop (p + length a) u"
    by (simp add: str_replace1_def str_find_def finditer_starts_def)
  ultimately show ?thesis by simp
qed

lemma dict_update_keeps_text:
  "\<exists>t. map_of d k = Some (PStr t) \<Longrightarrow> \<exists>t. map_of (dict_update d qs) k = Some (PStr t)"
proof (induction qs arbitrary: d)
  case Nil
  then show ?case by (simp add: dict_update_def)
next
  case (Cons q qs)
  from Cons.prems have "\<exists>t. map_of (AList.update (fst q) (PStr (snd q)) d) k = Some (PStr t)"
    by (simp add: update_conv')
  from Cons.IH [OF this] show ?case by (simp add: dict_update_def)
qed

lemma parse_config_address:
  assumes "parse_config L u = Inr cfg"
  shows "\<exists>a. dict_get cfg ''address'' = Some (PStr a)"
proof -
  from assms obtain d qs where cfg: "cfg = dict_update d qs"
    and d: "\<exists>t. map_of d ''address'' = Some (PStr t)"
    by (auto simp: parse_config_def update_conv' split: sum.splits if_splits option.splits)
  from dict_update_keeps_text [OF d] cfg show ?thesis by (simp add: dict_get_def)
qed

lemma SniChecker_init_fields:
  assumes "SniChecker_init L x u = Inr self"
  shows "self_sni self = x" and "self_url self = u" and "parse_config L u = Inr (self_config self)"
  using assms by (auto simp: SniChecker_init_def split: sum.splits)

lemma generate_unfold:
  assumes "dict_get (self_config self) ''address'' = Some (PStr a)"
  shows "generate self =
     Inr (let base = [replace_nth (self_url self) a (self_sni self) 1] @
                 (if truthy (dict_get (self_config self) ''sni'')
                  then [replace_nth (self_url self) a (self_sni self) 2] else []) @
                 (if truthy (dict_get (self_config self) ''host'')
                  then [replace_nth (self_url self) a (self_sni self)
                          (if truthy (dict_get (self_config self) ''sni'') then 3 else 2)]
                  else [])
          in base @ concat (map (\<lambda>v. map (\<lambda>j. replace_nth v a (self_sni self) (int j))
                                         [1 ..< str_count v a]) (tl base)))"
proof -
  have two: "[0 ..< Suc (Suc 0)] = [0, Suc 0]"
    and three: "[0 ..< Suc (Suc (Suc 0))] = [0, Suc 0, Suc (Suc 0)]"
    by simp_all
  show ?thesis
    using assms
    by (cases "truthy (dict_get (self_config self) ''sni'')";
        cases "truthy (dict_get (self_config self) ''host'')")
       (simp_all add: generate_def Let_def str_replace1_is_first expand_inner_count two three
          del: upt_Suc)
qed

text \<open>
  Claim C2, as the code has it.  Let \<open>base\<close> be the variants of the first three steps: the
  primary one, then the one for \<^verbatim>\<open>sni\<close> and the one for \<^verbatim>\<open>host\<close> when those keys are
  set.  The expansion pass appends, for every variant \<open>v\<close> of \<open>base\<close> after the primary one
  and in their order, the texts \<^verbatim>\<open>replace_nth(v, address, sni, j)\<close> for
  \<open>j = 1, \<dots>, m - 1\<close>, where \<open>m\<close> is the number of occurrences of the address in \<open>v\<close>:
  one variant fewer than \<open>v\<close> has occurrences, the last occurrence never being the
  one substituted (and none when \<open>m = 0\<close>).
\<close>

theorem generate_expansion_pass:
  assumes "SniChecker_init L x u = Inr self"
  shows "\<exists>a. dict_get (self_config self) ''address'' = Some (PStr a) \<and>
           generate self =
             Inr (let base = [replace_nth u a x 1] @
                         (if truthy (dict_get (self_config self) ''sni'')
                          then [replace_nth u a x 2] else []) @
                         (if truthy (dict_get (self_config self) ''host'')
                          then [replace_nth u a x
                                  (if truthy (dict_get (self_config self) ''sni'') then 3 else 2)]
                          else [])
                  in base @ concat (map (\<lambda>v. map (\<lambda>j. replace_nth v a x (int j))
                                                 [1 ..< str_count v a]) (tl base)))"
proof -
  from assms have f: "self_sni self = x" "self_url self = u"
    and p: "parse_config L u = Inr (self_config self)"
    by (rule SniChecker_init_fields)+
  from parse_config_address [OF p] obtain a
    where a: "dict_get (self_config self) ''address'' = Some (PStr a)" ..
  from generate_unfold [OF a] f a show ?thesis by auto
qed

text \<open>
  The theorem at a configuration with three occurrences of the address and both
  keys set.
\<close>

theorem generate_expansion_pass_witness:
  "generate \<lparr> self_sni = ''x.y'', self_url = ''vless://u@a.b:443?sni=a.b&host=a.b'',
              self_config = [(''proto'', PStr ''vless''), (''uuid'', PStr ''u''),
                             (''address'', PStr ''a.b''), (''port'', PInt 443),
                             (''sni'', PStr ''a.b''), (''host'', PStr ''a.b'')],
              self_urls = [] \<rparr> =
     Inr [''vless://u@x.y:443?sni=a.b&host=a.b'',
          ''vless://u@a.b:443?sni=x.y&host=a.b'',
          ''vless://u@a.b:443?sni=a.b&host=x.y'',
          ''vless://u@x.y:443?sni=x.y&host=a.b'',
          ''vless://u@x.y:443?sni=a.b&host=x.y'']"
proof -
  let ?u = "''vless://u@a.b:443?sni=a.b&host=a.b''"
  let ?cfg = "[(''proto'', PStr ''vless''), (''uuid'', PStr ''u''),
               (''address'', PStr ''a.b''), (''port'', PInt 443),
               (''sni'', PStr ''a.b''), (''host'', PStr ''a.b'')]"
  let ?self = "\<lparr> self_sni = ''x.y'', self_url = ?u, self_config = ?cfg, self_urls = [] \<rparr>"
  let ?E = "\<lambda>a. (let base = [replace_nth ?u a ''x.y'' 1] @
                         (if truthy (dict_get (self_config ?self) ''sni'')
                          then [replace_nth ?u a ''x.y'' 2] else []) @
                         (if truthy (dict_get (self_config ?self) ''host'')
                          then [replace_nth ?u a ''x.y''
                                  (if truthy (dict_get (self_config ?self) ''sni'') then 3 else 2)]
                          else [])
                  in base @ concat (map (\<lambda>v. map (\<lambda>j. replace_nth v a ''x.y'' (int j))
                                                 [1 ..< str_count v a]) (tl base)))"
  have init: "SniChecker_init ascii_lib ''x.y'' ?u = Inr ?self" by code_simp
  from generate_expansion_pass [OF init] obtain a
    where A: "dict_get (self_config ?self) ''address'' = Some (PStr a)"
      and G: "generate ?self = Inr (?E a)"
    by blast
  from A have a: "a = ''a.b''" by (simp add: dict_get_def)
  have val: "?E ''a.b'' =
      [''vless://u@x.y:443?sni=a.b&host=a.b'',
       ''vless://u@a.b:443?sni=x.y&host=a.b'',
       ''vless://u@a.b:443?sni=a.b&host=x.y'',
       ''vless://u@x.y:443?sni=x.y&host=a.b'',
       ''vless://u@x.y:443?sni=a.b&host=x.y'']" by code_simp
  from G show ?thesis unfolding a val .
qed

text \<open>
  The claim as stated fails there: the second and the third variant each
  contain the address twice, and each contributes one further variant, not two.
\<close>

theorem generate_expansion_pass_counterexample:
  "collect_configs ascii_lib ''vless://u@a.b:443?sni=a.b&host=a.b'' [''x.y''] [] =
     Inr [''vless://u@x.y:443?sni=a.b&host=a.b'',
          ''vless://u@a.b:443?sni=x.y&host=a.b'',
          ''vless://u@a.b:443?sni=a.b&host=x.y'',
          ''vless://u@x.y:443?sni=x.y&host=a.b'',
          ''vless://u@x.y:443?sni=a.b&host=x.y''] \<and>
   str_count ''vless://u@a.b:443?sni=x.y&host=a.b'' ''a.b'' = 2 \<and>
   str_count ''vless://u@a.b:443?sni=a.b&host=x.y'' ''a.b'' = 2"
  by code_simp




text \<open>
  Claim C4, as the code has it.  When \<^verbatim>\<open>sni\<close> is set and \<^verbatim>\<open>host\<close> is not, the address
  has exactly two (non-overlapping) occurrences in the configuration text, and
  the text with the second occurrence substituted contains the address at most
  once, \<^verbatim>\<open>generate\<close> returns exactly two variants: the first occurrence
  substituted, then the second occurrence substituted.
\<close>

theorem generate_sni_two_occurrences:
  assumes "SniChecker_init L x u = Inr self"
    and "truthy (dict_get (self_config self) ''sni'')"
    and "\<not> truthy (dict_get (self_config self) ''host'')"
    and "dict_get (self_config self) ''address'' = Some (PStr a)"
    and "finditer_starts a u = [p1, p2]"
    and "str_count (take p2 u @ x @ drop (p2 + length a) u) a \<le> 1"
  shows "generate self =
           Inr [take p1 u @ x @ drop (p1 + length a) u, take p2 u @ x @ drop (p2 + length a) u]"
proof -
  from assms(1) have f: "self_sni self = x" "self_url self = u"
    by (rule SniChecker_init_fields)+
  from assms(5) have r1: "replace_nth u a x 1 = take p1 u @ x @ drop (p1 + length a) u"
    using replace_nth_in_range [of 1 a u x] by simp
  from assms(5) have r2: "replace_nth u a x 2 = take p2 u @ x @ drop (p2 + length a) u"
    using replace_nth_in_range [of 2 a u x] by simp
  from generate_unfold [OF assms(4)] assms(2,3,6) f show ?thesis
    by (simp add: r1 r2 del: upt_Suc)
qed

theorem generate_sni_two_occurrences_witness:
  "generate \<lparr> self_sni = ''x.y'', self_url = ''vless://u@a.b:443?sni=a.b'',
              self_config = [(''proto'', PStr ''vless''), (''uuid'', PStr ''u''),
                             (''address'', PStr ''a.b''), (''port'', PInt 443),
                             (''sni'', PStr ''a.b'')],
              self_urls = [] \<rparr> =
     Inr [''vless://u@x.y:443?sni=a.b'', ''vless://u@a.b:443?sni=x.y'']"
proof -
  let ?u = "''vless://u@a.b:443?sni=a.b''"
  let ?self = "\<lparr> self_sni = ''x.y'', self_url = ?u,
              self_config = [(''proto'', PStr ''vless''), (''uuid'', PStr ''u''),
                             (''address'', PStr ''a.b''), (''port'', PInt 443),
                             (''sni'', PStr ''a.b'')],
              self_urls = [] \<rparr>"
  have init: "SniChecker_init ascii_lib ''x.y'' ?u = Inr ?self" by code_simp
  have sni: "truthy (dict_get (self_config ?self) ''sni'')" by code_simp
  have no_host: "\<not> truthy (dict_get (self_config ?self) ''host'')" by code_simp
  have adr: "dict_get (self_config ?self) ''address'' = Some (PStr ''a.b'')" by code_simp
  have occ: "finditer_starts ''a.b'' ?u = [10, 22]" by code_simp
  have cnt: "str_count (take 22 ?u @ ''x.y'' @ drop (22 + length ''a.b'') ?u) ''a.b'' \<le> 1"
    by code_simp
  have val: "[take 10 ?u @ ''x.y'' @ drop (10 + length ''a.b'') ?u,
              take 22 ?u @ ''x.y'' @ drop (22 + length ''a.b'') ?u] =
             [''vless://u@x.y:443?sni=a.b'', ''vless://u@a.b:443?sni=x.y'']"
    by code_simp
  from generate_sni_two_occurrences [OF init sni no_host adr occ cnt]
  show ?thesis unfolding val .
qed

text \<open>
  The claim as stated fails in two ways.  With \<^verbatim>\<open>host\<close> set as well, the \<^verbatim>\<open>host\<close>
  step asks for a third occurrence that does not exist and appends the
  unchanged text, which the expansion pass then expands: four variants.  And
  substituting the second occurrence can complete a new occurrence of the
  address with the text around it, which the expansion pass then substitutes:
  three variants.  In both, the address occurs exactly twice and the candidate
  domain does not contain it.
\<close>

theorem generate_sni_two_occurrences_counterexample:
  "finditer_starts ''a.b'' ''vless://u@a.b:443?sni=a.b&host=1'' = [10, 22] \<and>
   finditer_starts ''a.b'' ''x.y'' = [] \<and>
   collect_configs ascii_lib ''vless://u@a.b:443?sni=a.b&host=1'' [''x.y''] [] =
     Inr [''vless://u@x.y:443?sni=a.b&host=1'',
          ''vless://u@a.b:443?sni=x.y&host=1'',
          ''vless://u@a.b:443?sni=a.b&host=1'',
          ''vless://u@x.y:443?sni=a.b&host=1''] \<and>
   finditer_starts ''ab'' ''vless://u@ab:443?sni=aab'' = [10, 22] \<and>
   finditer_starts ''ab'' ''b'' = [] \<and>
   collect_configs ascii_lib ''vless://u@ab:443?sni=aab'' [''b''] [] =
     Inr [''vless://u@b:443?sni=aab'', ''vless://u@ab:443?sni=ab'', ''vless://u@b:443?sni=ab'']"
  by code_simp

section \<open>Facts about the port pool\<close>

lemma py_range_length: "length (py_range a b) = nat (b - a)"
  by (simp add: py_range_def)

lemma py_range_nth: "i < nat (b - a) \<Longrightarrow> py_range a b ! i = a + int i"
  by (simp add: py_range_def nth_upto)

lemma py_range_distinct: "distinct (py_range a b)"
  by (simp add: py_range_def)

lemma py_range_set: "set (py_range a b) = {a ..< b}"
  by (auto simp: py_range_def)

lemma random_sample_props:
  assumes "xs \<in> random_sample population k"
  shows "length xs = k"
    and "set xs \<subseteq> set population"
    and "distinct population \<Longrightarrow> distinct xs"
proof -
  from assms obtain idx where xs: "xs = map (\<lambda>i. population ! i) idx"
    and k: "length idx = k" and d: "distinct idx" and r: "set idx \<subseteq> {..< length population}"
    by (auto simp: random_sample_def)
  from xs k show "length xs = k" by simp
  from xs r show "set xs \<subseteq> set population" by auto
  assume dp: "distinct population"
  from r have "\<forall>i \<in> set idx. i < length population" by auto
  with dp have "inj_on (nth population) (set idx)" by (rule inj_on_nth)
  with d xs show "distinct xs" by (simp add: distinct_map)
qed

lemma ports_initialI:
  assumes len: "length xs = 100" and d: "distinct xs" and r: "set xs \<subseteq> {1024 ..< 65536}"
  shows "xs \<in> ports_initial"
proof -
  let ?idx = "map (\<lambda>p. nat (p - 1024)) xs"
  have inj: "inj_on (\<lambda>p. nat (p - 1024)) (set xs)"
  proof (rule inj_onI)
    fix p q assume "p \<in> set xs" "q \<in> set xs" "nat (p - 1024) = nat (q - 1024)"
    with r have "1024 \<le> p" "1024 \<le> q" "nat (p - 1024) = nat (q - 1024)"
      by (auto simp: subset_iff)
    then show "p = q" by linarith
  qed
  have a: "length ?idx = 100" using len by simp
  have b: "distinct ?idx" using d inj by (simp add: distinct_map)
  have c: "set ?idx \<subseteq> {..< length (py_range 1024 65536)}"
    using r by (auto simp: py_range_length subset_iff)
  have "\<forall>p \<in> set xs. py_range 1024 65536 ! nat (p - 1024) = p"
  proof
    fix p assume "p \<in> set xs"
    with r have "1024 \<le> p" "p < 65536" by (auto simp: subset_iff)
    then show "py_range 1024 65536 ! nat (p - 1024) = p" by (simp add: py_range_nth)
  qed
  then have "map (\<lambda>i. py_range 1024 65536 ! i) ?idx = xs"
    by (simp add: map_idI)
  with a b c have "\<exists>idx. xs = map (\<lambda>i. py_range 1024 65536 ! i) idx \<and> length idx = 100 \<and>
      distinct idx \<and> set idx \<subseteq> {..< length (py_range 1024 65536)}"
    by (intro exI [of _ ?idx]) simp
  then show ?thesis
    unfolding ports_initial_def random_sample_def by simp
qed

lemma acquire_ports_eq:
  "acquire_ports n ports =
     (map Inr (take n (rev ports)) @ replicate (n - length ports) (Inl IndexError),
      take (length ports - n) ports)"
proof (induction n arbitrary: ports)
  case 0
  then show ?case by simp
next
  case (Suc n)
  show ?case
  proof (cases ports rule: rev_cases)
    case Nil
    with Suc.IH [of "[]"] show ?thesis by (simp add: ports_pop_def)
  next
    case (snoc ps p)
    with Suc.IH [of ps] show ?thesis by (simp add: ports_pop_def)
  qed
qed

text \<open>
  Claim C6.  Every list \<^verbatim>\<open>random.sample(range(1024, 65536), 100)\<close> may return has
  100 pairwise distinct elements, each between 1024 and 65535.  Successive
  calls of \<^verbatim>\<open>ports.pop()\<close> on a pool of pairwise distinct ports yield pairwise
  distinct ports: \<open>N\<close> calls on a pool of \<open>N\<close> yield all of them, last first, and
  leave the pool empty; of \<open>n\<close> calls the first \<open>N\<close> succeed and every later one
  fails with \<^verbatim>\<open>IndexError\<close>, the pool being exhausted, and returns no port.
\<close>

theorem port_pool_no_port_twice:
  "(ports \<in> ports_initial \<longrightarrow>
      length ports = 100 \<and> distinct ports \<and> (\<forall>p \<in> set ports. 1024 \<le> p \<and> p \<le> 65535)) \<and>
   (distinct pool \<longrightarrow>
      fst (acquire_ports (length pool) pool) = map Inr (rev pool) \<and>
      distinct (rev pool) \<and>
      snd (acquire_ports (length pool) pool) = [] \<and>
      fst (acquire_ports n pool) =
        map Inr (take n (rev pool)) @ replicate (n - length pool) (Inl IndexError) \<and>
      distinct (take n (rev pool))) \<and>
   ports_pop [] = Inl IndexError"
proof (intro conjI impI)
  assume "ports \<in> ports_initial"
  then have s: "ports \<in> random_sample (py_range 1024 65536) 100"
    by (simp add: ports_initial_def)
  from random_sample_props(1) [OF s] show "length ports = 100" .
  from random_sample_props(3) [OF s py_range_distinct] show "distinct ports" .
  from random_sample_props(2) [OF s] show "\<forall>p \<in> set ports. 1024 \<le> p \<and> p \<le> 65535"
    by (auto simp: py_range_set subset_iff)
next
  show "ports_pop [] = Inl IndexError" by (simp add: ports_pop_def)
next
  assume d: "distinct pool"
  show "fst (acquire_ports (length pool) pool) = map Inr (rev pool)"
    by (simp add: acquire_ports_eq)
  show "snd (acquire_ports (length pool) pool) = []"
    by (simp add: acquire_ports_eq)
  show "fst (acquire_ports n pool) =
        map Inr (take n (rev pool)) @ replicate (n - length pool) (Inl IndexError)"
    by (simp add: acquire_ports_eq)
  from d show "distinct (rev pool)" by simp
  from d show "distinct (take n (rev pool))" by (simp add: distinct_take)
qed

theorem port_pool_no_port_twice_witness:
  "[1024 .. 1123] \<in> ports_initial \<and> length [1024 .. 1123 :: int] = 100 \<and>
   fst (acquire_ports 3 [5001, 5002, 5003]) = [Inr 5003, Inr 5002, Inr 5001] \<and>
   fst (acquire_ports 4 [5001, 5002, 5003]) = [Inr 5003, Inr 5002, Inr 5001, Inl IndexError] \<and>
   ports_pop [] = Inl IndexError"
proof -
  have mem: "[1024 .. 1123] \<in> ports_initial"
    by (rule ports_initialI) auto
  have d: "distinct [5001, 5002, 5003 :: int]" by simp
  note t = port_pool_no_port_twice [where ports = "[1024 .. 1123]" and pool = "[5001, 5002, 5003]"]
  from t [where n = 3] mem d have a: "length [1024 .. 1123 :: int] = 100"
    and b: "fst (acquire_ports 3 [5001, 5002, 5003]) = [Inr 5003, Inr 5002, Inr 5001]"
    by simp_all
  from t [where n = 4] d
  have c: "fst (acquire_ports 4 [5001, 5002, 5003]) = [Inr 5003, Inr 5002, Inr 5001, Inl IndexError]"
    by simp
  from t [where n = 0] have e: "ports_pop [] = Inl IndexError" by simp
  from mem a b c e show ?thesis by simp
qed

section \<open>Facts about \<^verbatim>\<open>run\<close>\<close>

lemma do_calls_subset: "set (fst (do_calls env cs)) \<subseteq> set cs"
  by (induction cs) (auto split: option.splits)

lemma run_after_launch_trace:
  "\<exists>before. set before \<subseteq> {Sleep, RequestsGet, LogInfo, LogWarning} \<and>
     fst (run_after_launch env urls) =
       before @ fst (do_calls env [GetPgid, KillPg, ProcessWait, FileClose, OsRemove])"
proof -
  let ?body = "do_calls env [Sleep, RequestsGet, LogInfo]"
  let ?handler = "case snd ?body of Some Exc \<Rightarrow> do_calls env [LogWarning] | other \<Rightarrow> ([], other)"
  have b: "set (fst ?body) \<subseteq> {Sleep, RequestsGet, LogInfo}"
    using do_calls_subset [of env "[Sleep, RequestsGet, LogInfo]"] by simp
  have h: "set (fst ?handler) \<subseteq> {LogWarning}"
    using do_calls_subset [of env "[LogWarning]"]
    by (auto split: option.splits raised.splits)
  from b h have "set (fst ?body @ fst ?handler) \<subseteq> {Sleep, RequestsGet, LogInfo, LogWarning}"
    by auto
  moreover have "fst (run_after_launch env urls) =
       (fst ?body @ fst ?handler) @ fst (do_calls env [GetPgid, KillPg, ProcessWait, FileClose, OsRemove])"
    by (simp add: run_after_launch_def Let_def)
  ultimately show ?thesis by blast
qed

text \<open>
  Claim C8, as the code has it.  However the \<^verbatim>\<open>try\<close> block and its handler end
  (the request succeeds, a call raises an \<^verbatim>\<open>Exception\<close> that the handler logs, or
  a call raises some other exception), the \<^verbatim>\<open>finally\<close> block is entered and its
  calls are made in order: the group is looked up and signalled, the process is
  waited for, the file is closed and removed.  When the calls before the removal
  return, all five are made, so the process is signalled and waited for and the
  removal of the scratch file is carried out.  The calls are in sequence: one
  that raises ends the block and the later ones are not made.
\<close>

theorem run_cleanup_on_every_path:
  "(\<exists>before. set before \<subseteq> {Sleep, RequestsGet, LogInfo, LogWarning} \<and>
      fst (run_after_launch env urls) =
        before @ fst (do_calls env [GetPgid, KillPg, ProcessWait, FileClose, OsRemove])) \<and>
   (env GetPgid = None \<and> env KillPg = None \<and> env ProcessWait = None \<and> env FileClose = None \<longrightarrow>
      (\<exists>before. set before \<subseteq> {Sleep, RequestsGet, LogInfo, LogWarning} \<and>
         fst (run_after_launch env urls) =
           before @ [GetPgid, KillPg, ProcessWait, FileClose, OsRemove]))"
proof (intro conjI impI)
  show "\<exists>before. set before \<subseteq> {Sleep, RequestsGet, LogInfo, LogWarning} \<and>
      fst (run_after_launch env urls) =
        before @ fst (do_calls env [GetPgid, KillPg, ProcessWait, FileClose, OsRemove])"
    by (rule run_after_launch_trace)
next
  assume "env GetPgid = None \<and> env KillPg = None \<and> env ProcessWait = None \<and> env FileClose = None"
  then have "fst (do_calls env [GetPgid, KillPg, ProcessWait, FileClose, OsRemove]) =
        [GetPgid, KillPg, ProcessWait, FileClose, OsRemove]"
    by (simp split: option.splits)
  with run_after_launch_trace [of env urls]
  show "\<exists>before. set before \<subseteq> {Sleep, RequestsGet, LogInfo, LogWarning} \<and>
         fst (run_after_launch env urls) =
           before @ [GetPgid, KillPg, ProcessWait, FileClose, OsRemove]"
    by simp
qed

theorem run_cleanup_on_every_path_witness:
  "(returns_all (RequestsGet := Some Exc)) KillPg = None \<and>
   (\<exists>before. set before \<subseteq> {Sleep, RequestsGet, LogInfo, LogWarning} \<and>
      fst (run_after_launch (returns_all (RequestsGet := Some Exc)) ''u'') =
        before @ [GetPgid, KillPg, ProcessWait, FileClose, OsRemove]) \<and>
   run_after_launch (returns_all (RequestsGet := Some Exc)) ''u'' =
     ([Sleep, RequestsGet, LogWarning, GetPgid, KillPg, ProcessWait, FileClose, OsRemove],
      Inr ResultFalse) \<and>
   run_after_launch returns_all ''u'' =
     ([Sleep, RequestsGet, LogInfo, GetPgid, KillPg, ProcessWait, FileClose, OsRemove],
      Inr (ResultUrls ''u''))"
proof -
  have "run_after_launch (returns_all (RequestsGet := Some Exc)) ''u'' =
     ([Sleep, RequestsGet, LogWarning, GetPgid, KillPg, ProcessWait, FileClose, OsRemove],
      Inr ResultFalse)"
    by (simp add: run_after_launch_def returns_all_def)
  moreover have "run_after_launch returns_all ''u'' =
     ([Sleep, RequestsGet, LogInfo, GetPgid, KillPg, ProcessWait, FileClose, OsRemove],
      Inr (ResultUrls ''u''))"
    by (simp add: run_after_launch_def returns_all_def)
  moreover have "(returns_all (RequestsGet := Some Exc)) KillPg = None"
    by (simp add: returns_all_def)
  moreover from run_cleanup_on_every_path [of "returns_all (RequestsGet := Some Exc)" "''u''"]
  have "\<exists>before. set before \<subseteq> {Sleep, RequestsGet, LogInfo, LogWarning} \<and>
      fst (run_after_launch (returns_all (RequestsGet := Some Exc)) ''u'') =
        before @ [GetPgid, KillPg, ProcessWait, FileClose, OsRemove]"
    by (simp add: returns_all_def)
  ultimately show ?thesis by simp
qed

text \<open>
  The claim as stated fails in its last part: when signalling the process group
  raises, or waiting for the process raises, the scratch file is not removed.
\<close>

theorem run_cleanup_on_every_path_counterexample:
  "run_after_launch (returns_all (KillPg := Some Exc)) ''u'' =
     ([Sleep, RequestsGet, LogInfo, GetPgid, KillPg], Inl Exc) \<and>
   run_after_launch (returns_all (ProcessWait := Some Exc)) ''u'' =
     ([Sleep, RequestsGet, LogInfo, GetPgid, KillPg, ProcessWait], Inl Exc)"
  by (simp add: run_after_launch_def returns_all_def)

section \<open>Facts about the threads of \<^verbatim>\<open>start\<close>\<close>

lemma exec_main_steps:
  "exec (replicate (length cs) MainStep)
     \<lparr> st_todo = cs, st_threads = k, st_running = r, st_joined = j, st_semaphore = m \<rparr> =
   Some \<lparr> st_todo = [], st_threads = k + length cs, st_running = r @ [k ..< k + length cs],
          st_joined = j, st_semaphore = m \<rparr>"
proof (induction cs arbitrary: k r)
  case Nil
  then show ?case by simp
next
  case (Cons c cs)
  have "[k ..< k + length (c # cs)] = k # [Suc k ..< Suc k + length cs]"
    using upt_conv_Cons [of k "k + length (c # cs)"] by simp
  with Cons.IH [of "Suc k" "r @ [k]"] show ?case
    by (simp add: main_step_def del: upt_Suc)
qed

text \<open>
  On claim C10.  The loop of \<^verbatim>\<open>start\<close> starts every thread without waiting for
  any: after as many steps of the main thread as there are variants, all
  workers are running at once, whatever their number, and the semaphore still
  has its initial value \<^const>\<open>max_threads\<close>.
\<close>

theorem start_runs_all_threads_at_once:
  "exec (replicate (length configs) MainStep) (start_threads configs) =
     Some \<lparr> st_todo = [], st_threads = length configs,
            st_running = [0 ..< length configs], st_joined = 0,
            st_semaphore = max_threads \<rparr>"
  using exec_main_steps [of configs 0 "[]" 0 max_threads]
  by (simp add: start_threads_def)

text \<open>With eleven variants, eleven probes run concurrently.\<close>

theorem start_runs_all_threads_at_once_witness:
  "map_option (\<lambda>s. length (st_running s))
     (exec (replicate 11 MainStep)
        (start_threads [''c1'', ''c2'', ''c3'', ''c4'', ''c5'', ''c6'', ''c7'', ''c8'', ''c9'',
                        ''c10'', ''c11''])) = Some 11 \<and>
   max_threads = 10"
proof -
  let ?cs = "[''c1'', ''c2'', ''c3'', ''c4'', ''c5'', ''c6'', ''c7'', ''c8'', ''c9'',
              ''c10'', ''c11'']"
  have len: "length ?cs = 11" by simp
  from start_runs_all_threads_at_once [of ?cs]
  have "exec (replicate 11 MainStep) (start_threads ?cs) =
     Some \<lparr> st_todo = [], st_threads = 11, st_running = [0 ..< 11], st_joined = 0,
            st_semaphore = max_threads \<rparr>"
    unfolding len .
  then show ?thesis by (simp add: max_threads_def)
qed

section \<open>Facts about \<^verbatim>\<open>start\<close>: the candidate file\<close>











section \<open>Facts about splitting and about \<^verbatim>\<open>parse_qs\<close>\<close>















section \<open>Facts about \<^verbatim>\<open>parse_config\<close>: failure\<close>








section \<open>Facts about \<^verbatim>\<open>urlparse\<close> on well-formed text\<close>






section \<open>Facts about integer literals and dictionary updates\<close>






section \<open>Facts about \<^verbatim>\<open>parse_config\<close>: well-formed text\<close>




end
